theory Spec2Isabelle
  imports Complex_Main "HOL-Library.Char_ord" "HOL-Library.List_Lexorder" "HOL-Library.Multiset"
begin

section \<open>Common vocabulary\<close>

text \<open>
  The three tools are Python scripts. An exception that leaves a function is a value
  \<open>Inl e\<close> of the result; the file system is passed in and returned.
\<close>

datatype error =
    ValueError
  | FileNotFoundError
  | NotADirectoryError
  | ZeroDivisionError
  | OverflowError
  | OSError
  | KeyboardInterrupt
  | OtherError

type_synonym path = string

section \<open>Page Replicator (pdf-copy/duplicate-page.py)\<close>





section \<open>Format Converter (heic_converter/heic.py)\<close>

subsection \<open>Strings and path names\<close>





definition endswith :: "string \<Rightarrow> string \<Rightarrow> bool" where
  "endswith s suffix =
     (length suffix \<le> length s \<and> drop (length s - length suffix) s = suffix)"

text \<open>
  \<^verbatim>\<open>Path.glob("*.heic")\<close> on the entries of one directory: the pattern is matched
  against each name as a whole, case-sensitively as on a POSIX system, and \<open>*\<close>
  matches any run of characters, the empty one and a leading dot included. So a name
  matches \<open>*suffix\<close> when it ends with the suffix. The result keeps the order of the
  listing.
\<close>

definition glob_star :: "string list \<Rightarrow> string \<Rightarrow> string list" where
  "glob_star names suffix = filter (\<lambda>name. endswith name suffix) names"

text \<open>
  \<^verbatim>\<open>PurePath.stem\<close>: the name up to its last dot, unless that dot is the first
  or the last character of the name (or there is none), in which case the stem is the
  whole name.
\<close>

definition rfind_dot :: "string \<Rightarrow> nat option" where
  "rfind_dot name =
     (if CHR ''.'' \<in> set name
      then Some (length name - 1 - length (takeWhile (\<lambda>c. c \<noteq> CHR ''.'') (rev name)))
      else None)"

definition stem :: "string \<Rightarrow> string" where
  "stem name =
     (case rfind_dot name of
        None \<Rightarrow> name
      | Some i \<Rightarrow> if 0 < i \<and> i < length name - 1 then take i name else name)"

subsection \<open>The conversion of one file\<close>

text \<open>
  The input directory is a map from names to file contents. The libraries are an
  environment: \<open>decode\<close> stands for \<^verbatim>\<open>pyheif.read\<close> followed by
  \<^verbatim>\<open>Image.frombytes\<close>, \<open>save\<close> for \<^verbatim>\<open>image.save(output_path)\<close> (the bytes
  written at that path), and \<open>can_unlink\<close> tells whether the system lets
  \<^verbatim>\<open>heic_file.unlink()\<close> remove the file; \<open>unlink\<close> also raises when the file is
  not there. \<open>None\<close> and \<open>False\<close> mean that the call raises an \<open>Exception\<close>; a
  \<open>save\<close> that raises is taken to leave no file behind.
\<close>

type_synonym 'c directory = "string \<rightharpoonup> 'c"

record ('c, 'i) codec =
  decode :: "'c \<Rightarrow> 'i option"
  save :: "'i \<Rightarrow> string \<Rightarrow> 'c option"
  can_unlink :: "string \<Rightarrow> bool"

datatype message =
    Error_does_not_exist
  | Error_not_a_directory
  | Error_unsupported_format
  | No_heic_files_found
  | Converted string string
  | Converted_and_deleted string string
  | Failed_to_convert string
  | Separator
  | Conversion_complete nat nat

definition convert_one ::
  "('c, 'i) codec \<Rightarrow> bool \<Rightarrow> string \<Rightarrow> 'c directory \<Rightarrow> string
     \<Rightarrow> 'c directory \<times> bool \<times> message" where
  "convert_one env delete_original file_extension files heic_file =
     (let output_name = stem heic_file @ file_extension in
      case files heic_file of
        None \<Rightarrow> (files, False, Failed_to_convert heic_file)
      | Some heif_file \<Rightarrow>
          (case decode env heif_file of
             None \<Rightarrow> (files, False, Failed_to_convert heic_file)
           | Some img \<Rightarrow>
               (case save env img output_name of
                  None \<Rightarrow> (files, False, Failed_to_convert heic_file)
                | Some written \<Rightarrow>
                    let files1 = files(output_name \<mapsto> written) in
                    if delete_original then
                      if can_unlink env heic_file \<and> files1 heic_file \<noteq> None
                      then (files1(heic_file := None), True,
                            Converted_and_deleted heic_file output_name)
                      else (files1, False, Failed_to_convert heic_file)
                    else (files1, True, Converted heic_file output_name))))"

text \<open>
  The bytes that \<open>convert_one\<close> writes for a file: those that \<open>save\<close> returns when
  the source is there and both \<open>decode\<close> and \<open>save\<close> succeed; \<open>None\<close> when the
  conversion fails.
\<close>

definition converted ::
  "('c, 'i) codec \<Rightarrow> string \<Rightarrow> 'c directory \<Rightarrow> string \<Rightarrow> 'c option" where
  "converted env file_extension files heic_file =
     (case files heic_file of
        None \<Rightarrow> None
      | Some heif_file \<Rightarrow>
          (case decode env heif_file of
             None \<Rightarrow> None
           | Some img \<Rightarrow> save env img (stem heic_file @ file_extension)))"

subsection \<open>Sequential and parallel runs\<close>


text \<open>
  In parallel mode every file is a task of a thread pool, and the tasks interleave.
  A task touches the directory three times: it reads its source, it writes its output,
  it unlinks its source. Each of these is one atomic step of the task; \<open>phase\<close> is
  where a task stands between two steps.
\<close>

datatype 'i phase = Start | Decoded 'i | Written | Finished bool message

definition task_step ::
  "('c, 'i) codec \<Rightarrow> bool \<Rightarrow> string \<Rightarrow> 'c directory \<Rightarrow> string \<Rightarrow> 'i phase
     \<Rightarrow> 'c directory \<times> 'i phase" where
  "task_step env delete_original file_extension files heic_file ph =
     (let output_name = stem heic_file @ file_extension in
      case ph of
        Start \<Rightarrow>
          (case files heic_file of
             None \<Rightarrow> (files, Finished False (Failed_to_convert heic_file))
           | Some heif_file \<Rightarrow>
               (case decode env heif_file of
                  None \<Rightarrow> (files, Finished False (Failed_to_convert heic_file))
                | Some img \<Rightarrow> (files, Decoded img)))
      | Decoded img \<Rightarrow>
          (case save env img output_name of
             None \<Rightarrow> (files, Finished False (Failed_to_convert heic_file))
           | Some written \<Rightarrow>
               (files(output_name \<mapsto> written),
                if delete_original then Written
                else Finished True (Converted heic_file output_name)))
      | Written \<Rightarrow>
          if can_unlink env heic_file \<and> files heic_file \<noteq> None
          then (files(heic_file := None),
                Finished True (Converted_and_deleted heic_file output_name))
          else (files, Finished False (Failed_to_convert heic_file))
      | Finished success msg \<Rightarrow> (files, Finished success msg))"

fun is_finished :: "'i phase \<Rightarrow> bool" where
  "is_finished (Finished success msg) = True"
| "is_finished ph = False"

text \<open>
  A schedule is the list of the scheduler's choices: the index of the task that takes
  the next step. A choice of a finished task, or of no task, changes nothing. The main
  thread receives the results in the order of completion (\<^verbatim>\<open>as_completed\<close>).
\<close>

record ('c, 'i) pool =
  pool_files :: "'c directory"
  phases :: "'i phase list"
  completed :: "(bool \<times> message) list"

definition advance ::
  "('c, 'i) codec \<Rightarrow> bool \<Rightarrow> string \<Rightarrow> string list \<Rightarrow> nat \<Rightarrow> ('c, 'i) pool
     \<Rightarrow> ('c, 'i) pool" where
  "advance env delete_original file_extension heic_files i st =
     (if i < length heic_files \<and> i < length (phases st) \<and> \<not> is_finished (phases st ! i)
      then
        (case task_step env delete_original file_extension (pool_files st) (heic_files ! i)
                (phases st ! i) of
           (files', ph') \<Rightarrow>
             \<lparr>pool_files = files',
              phases = (phases st)[i := ph'],
              completed =
                (case ph' of
                   Finished success msg \<Rightarrow> completed st @ [(success, msg)]
                 | _ \<Rightarrow> completed st)\<rparr>)
      else st)"

fun run_schedule ::
  "('c, 'i) codec \<Rightarrow> bool \<Rightarrow> string \<Rightarrow> string list \<Rightarrow> nat list \<Rightarrow> ('c, 'i) pool
     \<Rightarrow> ('c, 'i) pool" where
  "run_schedule env delete_original file_extension heic_files [] st = st"
| "run_schedule env delete_original file_extension heic_files (i # schedule) st =
     run_schedule env delete_original file_extension heic_files schedule
       (advance env delete_original file_extension heic_files i st)"

text \<open>
  Leaving the \<^verbatim>\<open>with ThreadPoolExecutor()\<close> block waits for every task: whatever the
  schedule left undone is run to its end, three steps being enough for any task.
\<close>

definition drain :: "nat \<Rightarrow> nat list" where
  "drain n = concat (map (\<lambda>i. [i, i, i]) [0..<n])"



subsection \<open>What a run leaves behind, whatever the schedule\<close>

text \<open>
  The vocabulary in which the two modes are compared. \<open>predicted\<close> is the result of
  converting a file in the directory as it was when the run began. A state of the
  pool is consistent with that directory when every task stands where its own steps
  put it (\<open>phase_ok\<close>), when a name is in the directory exactly if it was there and no
  task removed it, or some task wrote it, and when the completed results are those
  of the finished tasks, each once.
\<close>

definition predicted ::
  "('c, 'i) codec \<Rightarrow> bool \<Rightarrow> string \<Rightarrow> 'c directory \<Rightarrow> string \<Rightarrow> bool \<times> message" where
  "predicted env delete_original file_extension files0 heic_file =
     snd (convert_one env delete_original file_extension files0 heic_file)"

definition phase_ok ::
  "('c, 'i) codec \<Rightarrow> bool \<Rightarrow> string \<Rightarrow> 'c directory \<Rightarrow> 'c directory \<Rightarrow> string
     \<Rightarrow> 'i phase \<Rightarrow> bool" where
  "phase_ok env delete_original file_extension files0 files heic_file ph =
     (case ph of
        Start \<Rightarrow> files heic_file = files0 heic_file
      | Decoded img \<Rightarrow>
          files heic_file = files0 heic_file
          \<and> (\<exists>heif_file. files0 heic_file = Some heif_file \<and> decode env heif_file = Some img)
      | Written \<Rightarrow>
          delete_original \<and> files heic_file = files0 heic_file
          \<and> converted env file_extension files0 heic_file \<noteq> None
      | Finished success msg \<Rightarrow>
          (success, msg) = predicted env delete_original file_extension files0 heic_file)"

definition has_written ::
  "('c, 'i) codec \<Rightarrow> string \<Rightarrow> 'c directory \<Rightarrow> string \<Rightarrow> 'i phase \<Rightarrow> bool" where
  "has_written env file_extension files0 heic_file ph =
     (case ph of
        Written \<Rightarrow> True
      | Finished success msg \<Rightarrow> converted env file_extension files0 heic_file \<noteq> None
      | _ \<Rightarrow> False)"

definition has_removed :: "bool \<Rightarrow> 'i phase \<Rightarrow> bool" where
  "has_removed delete_original ph =
     (case ph of Finished success msg \<Rightarrow> delete_original \<and> success | _ \<Rightarrow> False)"

definition pool_invariant ::
  "('c, 'i) codec \<Rightarrow> bool \<Rightarrow> string \<Rightarrow> 'c directory \<Rightarrow> string list \<Rightarrow> ('c, 'i) pool
     \<Rightarrow> bool" where
  "pool_invariant env delete_original file_extension files0 heic_files st =
     (length (phases st) = length heic_files
      \<and> (\<forall>i<length heic_files.
            phase_ok env delete_original file_extension files0 (pool_files st)
              (heic_files ! i) (phases st ! i))
      \<and> (\<forall>name.
            (pool_files st name \<noteq> None)
              = ((files0 name \<noteq> None
                  \<and> \<not> (\<exists>i<length heic_files.
                          name = heic_files ! i \<and> has_removed delete_original (phases st ! i)))
                 \<or> (\<exists>i<length heic_files.
                       name = stem (heic_files ! i) @ file_extension
                       \<and> has_written env file_extension files0 (heic_files ! i)
                             (phases st ! i))))
      \<and> (\<exists>order.
            distinct order
            \<and> set order = {i. i < length heic_files \<and> is_finished (phases st ! i)}
            \<and> completed st
                = map (\<lambda>i. predicted env delete_original file_extension files0 (heic_files ! i))
                    order))"

text \<open>
  The contents of the directory: a name that no task has written holds what it held
  when the run began, unless a task removed it; the output of a task that has written
  holds the bytes predicted for it, when no other task has the same stem and so the
  same output name.
\<close>

definition pool_contents ::
  "('c, 'i) codec \<Rightarrow> bool \<Rightarrow> string \<Rightarrow> 'c directory \<Rightarrow> string list \<Rightarrow> ('c, 'i) pool
     \<Rightarrow> bool" where
  "pool_contents env delete_original file_extension files0 heic_files st =
     ((\<forall>name.
          (\<forall>i<length heic_files.
              name = stem (heic_files ! i) @ file_extension \<longrightarrow>
              \<not> has_written env file_extension files0 (heic_files ! i) (phases st ! i)) \<longrightarrow>
          pool_files st name
            = (if \<exists>i<length heic_files.
                    name = heic_files ! i \<and> has_removed delete_original (phases st ! i)
               then None else files0 name))
      \<and> (\<forall>i<length heic_files.
            has_written env file_extension files0 (heic_files ! i) (phases st ! i)
            \<and> (\<forall>j<length heic_files. stem (heic_files ! j) = stem (heic_files ! i) \<longrightarrow> j = i)
            \<longrightarrow> pool_files st (stem (heic_files ! i) @ file_extension)
                  = converted env file_extension files0 (heic_files ! i)))"

text \<open>The number of steps a task may still take.\<close>

fun steps_left :: "'i phase \<Rightarrow> nat" where
  "steps_left Start = 3"
| "steps_left (Decoded img) = 2"
| "steps_left Written = 1"
| "steps_left (Finished success msg) = 0"

subsection \<open>The converter and its entry point\<close>


definition format_extensions :: "string \<rightharpoonup> string" where
  "format_extensions =
     [''JPG'' \<mapsto> ''.jpg'', ''JPEG'' \<mapsto> ''.jpg'', ''PNG'' \<mapsto> ''.png'', ''WEBP'' \<mapsto> ''.webp'']"

definition find_heic_files :: "string list \<Rightarrow> string list" where
  "find_heic_files names = glob_star names ''.heic'' @ glob_star names ''.HEIC''"



section \<open>Layout Composer (layout_gen/layout.py)\<close>

subsection \<open>Floats, images and the crop step\<close>

text \<open>
  A finite Python float is a rational number, here a \<open>real\<close>. An arithmetic operation
  on floats returns its exact result rounded to the nearest float: the rounding
  function (\<open>rnd\<close>, or the field \<open>fl\<close> of the library below) is a parameter of the model,
  so that a theorem holds for whatever rounding it assumes of it. An \<open>int\<close> that meets
  a float is converted exactly. Infinities and NaN are outside the model.

  \<^verbatim>\<open>int(x)\<close> truncates towards zero.
\<close>

definition py_int :: "real \<Rightarrow> int" where
  "py_int x = (if 0 \<le> x then \<lfloor>x\<rfloor> else \<lceil>x\<rceil>)"

text \<open>
  An image has a size and a pixel at each position, the origin being the upper left
  corner. \<^verbatim>\<open>img.crop((left, upper, right, lower))\<close> is the region of that box.
\<close>

record 'px image =
  width :: int
  height :: int
  pixel :: "int \<Rightarrow> int \<Rightarrow> 'px"

definition crop :: "'px image \<Rightarrow> int \<times> int \<times> int \<times> int \<Rightarrow> 'px image" where
  "crop img box =
     (case box of
        (left, upper, right, lower) \<Rightarrow>
          \<lparr>width = right - left, height = lower - upper,
           pixel = (\<lambda>x y. pixel img (x + left) (y + upper))\<rparr>)"

definition crop_to_aspect ::
  "(real \<Rightarrow> real) \<Rightarrow> 'px image \<Rightarrow> real \<Rightarrow> error + 'px image" where
  "crop_to_aspect rnd img target_ratio =
     (if height img = 0 then Inl ZeroDivisionError
      else
        let current_ratio = rnd (real_of_int (width img) / real_of_int (height img)) in
        if current_ratio > target_ratio then
          let new_width = py_int (rnd (real_of_int (height img) * target_ratio));
              left = (width img - new_width) div 2
          in Inr (crop img (left, 0, left + new_width, height img))
        else if current_ratio < target_ratio then
          if target_ratio = 0 then Inl ZeroDivisionError
          else
            let new_height = py_int (rnd (real_of_int (width img) / target_ratio));
                top = (height img - new_height) div 2
            in Inr (crop img (0, top, width img, top + new_height))
        else Inr img)"

text \<open>
  What the theorems on the crop step assume of the rounding: it is monotone, as
  rounding to nearest is. That a given number is a float is said by \<open>rnd x = x\<close>.
\<close>

definition monotone_rounding :: "(real \<Rightarrow> real) \<Rightarrow> bool" where
  "monotone_rounding rnd = (\<forall>x y. x \<le> y \<longrightarrow> rnd x \<le> rnd y)"

subsection \<open>The libraries and the arguments\<close>

text \<open>
  The constants of \<^verbatim>\<open>reportlab\<close> (\<open>inch\<close> and the page sizes, in points), the
  file system and the calls into \<^verbatim>\<open>PIL\<close> and \<^verbatim>\<open>reportlab\<close> that can fail are
  an environment.
  \<^item> \<open>fl\<close> rounds the exact result of a float operation; \<open>fits_float\<close> tells whether
    an \<open>int\<close> converts to a float (from about \<open>2^1024\<close> on, the conversion raises
    \<open>OverflowError\<close>).
  \<^item> \<open>listdir\<close> returns the names of a directory or the exception it raises.
  \<^item> \<open>resolve\<close> maps a path to the canonical path of the file it names, so that two
    paths of one file meet; \<open>image_files\<close> holds, for each canonical path, what
    \<^verbatim>\<open>Image.open\<close> yields when the run begins: the image, or the exception raised.
  \<^item> \<open>lanczos\<close> is the resampling filter of \<^verbatim>\<open>resize\<close>, \<open>jpeg\<close> gives the pixels
    of an image after it was saved as JPEG.
  \<^item> \<open>can_save\<close>, \<open>can_draw\<close>, \<open>can_remove\<close> and \<open>can_write_pdf\<close> tell whether saving
    the temporary file, \<^verbatim>\<open>drawImage\<close>, \<^verbatim>\<open>os.remove\<close> and the writing of the
    output document succeed.
\<close>

record 'px library =
  fl :: "real \<Rightarrow> real"
  fits_float :: "int \<Rightarrow> bool"
  inch :: real
  LETTER :: "real \<times> real"
  A4 :: "real \<times> real"
  LEGAL :: "real \<times> real"
  listdir :: "path \<Rightarrow> error + string list"
  resolve :: "path \<Rightarrow> path"
  image_files :: "path \<Rightarrow> error + 'px image"
  lanczos :: "'px image \<Rightarrow> int \<times> int \<Rightarrow> int \<Rightarrow> int \<Rightarrow> 'px"
  jpeg :: "'px image \<Rightarrow> int \<Rightarrow> int \<Rightarrow> 'px"
  can_save :: "path \<Rightarrow> bool"
  can_draw :: "path \<Rightarrow> bool"
  can_remove :: "path \<Rightarrow> bool"
  can_write_pdf :: "path \<Rightarrow> bool"



text \<open>
  An \<open>int\<close> that meets a float in an operation is converted first: the conversion
  rounds, and raises \<open>OverflowError\<close> for an \<open>int\<close> that is too large.
\<close>

definition int_to_float :: "'px library \<Rightarrow> int \<Rightarrow> error + real" where
  "int_to_float L n = (if fits_float L n then Inr (fl L (real_of_int n)) else Inl OverflowError)"

subsection \<open>Finding and processing the images\<close>


definition basename :: "path \<Rightarrow> string" where
  "basename p = rev (takeWhile (\<lambda>c. c \<noteq> CHR ''/'') (rev p))"


text \<open>
  \<^verbatim>\<open>img.rotate(90, expand=True)\<close> turns the image counterclockwise and swaps its
  sides; \<^verbatim>\<open>img.resize(size, Image.LANCZOS)\<close> raises for a size that is not
  positive and otherwise returns an image of exactly that size; saving as JPEG keeps
  the size.
\<close>

definition rotate90 :: "'px image \<Rightarrow> 'px image" where
  "rotate90 img =
     \<lparr>width = height img, height = width img,
      pixel = (\<lambda>x y. pixel img (width img - 1 - y) x)\<rparr>"

definition resize :: "'px library \<Rightarrow> 'px image \<Rightarrow> int \<times> int \<Rightarrow> error + 'px image" where
  "resize L img target =
     (case target of
        (target_width, target_height) \<Rightarrow>
          if target_width \<le> 0 \<or> target_height \<le> 0 then Inl ValueError
          else Inr \<lparr>width = target_width, height = target_height,
                    pixel = lanczos L img (target_width, target_height)\<rparr>)"

definition saved_as_jpeg :: "'px library \<Rightarrow> 'px image \<Rightarrow> 'px image" where
  "saved_as_jpeg L img = img\<lparr>pixel := jpeg L img\<rparr>"

datatype log_line =
    Warning_may_not_fit
  | No_jpeg_images_found
  | Found_images nat
  | Creating_grid
  | Image_size
  | Placing string int int nat
  | Error_processing path
  | Error_placing path
  | Pdf_saved path

text \<open>
  The temporary file of an image lies in the working directory under the name
  \<open>temp_<basename>.jpg\<close>. The image files of the run are a state: saving the
  temporary file stores an image under its canonical path, whatever was there before.
\<close>

type_synonym 'px store = "path \<Rightarrow> error + 'px image"

definition temp_path_of :: "path \<Rightarrow> path" where
  "temp_path_of image_path = ''temp_'' @ basename image_path @ ''.jpg''"

text \<open>
  \<open>process_image\<close> returns the lines it printed, the path of the temporary file when
  it succeeded, and the image files afterwards. Its handler catches every
  \<open>Exception\<close>; a \<open>KeyboardInterrupt\<close> is not one and leaves the function. A save that
  raises is taken to leave the files as they were.
\<close>

definition process_image ::
  "'px library \<Rightarrow> 'px store \<Rightarrow> path \<Rightarrow> real \<Rightarrow> real \<Rightarrow> int
     \<Rightarrow> error + (log_line list \<times> path option \<times> 'px store)" where
  "process_image L store image_path w_in h_in resolution =
     (case store (resolve L image_path) of
        Inl e \<Rightarrow>
          if e = KeyboardInterrupt then Inl e
          else Inr ([Error_processing image_path], None, store)
      | Inr opened \<Rightarrow>
          let img = (if width opened < height opened then rotate90 opened else opened) in
          (case int_to_float L resolution of
             Inl e \<Rightarrow> Inr ([Error_processing image_path], None, store)
           | Inr float_dpi \<Rightarrow>
               let target_width = py_int (fl L (w_in * float_dpi));
                   target_height = py_int (fl L (h_in * float_dpi))
               in
                 if h_in = 0 then Inr ([Error_processing image_path], None, store)
                 else
                   let target_ratio = fl L (w_in / h_in) in
                   (case crop_to_aspect (fl L) img target_ratio of
                      Inl e \<Rightarrow> Inr ([Error_processing image_path], None, store)
                    | Inr cropped \<Rightarrow>
                        (case resize L cropped (target_width, target_height) of
                           Inl e \<Rightarrow> Inr ([Error_processing image_path], None, store)
                         | Inr resized \<Rightarrow>
                             let temp_path = temp_path_of image_path in
                             if can_save L temp_path
                             then Inr ([], Some temp_path,
                                       store(resolve L temp_path := Inr (saved_as_jpeg L resized)))
                             else Inr ([Error_processing image_path], None, store)))))"

subsection \<open>Pagination\<close>




subsection \<open>The canvas and the placement of one image\<close>













subsection \<open>The layout loops\<close>



subsection \<open>The composer and its entry point\<close>





subsection \<open>What one image leaves on the page and in the log\<close>





subsection \<open>An example library and example arguments\<close>




section \<open>Properties of the Page Replicator\<close>









section \<open>Properties of the crop step\<close>

lemma py_int_le:
  assumes "x \<le> real_of_int n" and "0 \<le> n"
  shows "py_int x \<le> n"
proof (cases "0 \<le> x")
  case True
  have "\<lfloor>x\<rfloor> \<le> \<lfloor>real_of_int n\<rfloor>" using assms(1) by (rule floor_mono)
  then show ?thesis using True by (simp add: py_int_def)
next
  case False
  then have "\<lceil>x\<rceil> \<le> 0" by (simp add: ceiling_le_iff)
  then have "\<lceil>x\<rceil> \<le> n" using assms(2) by linarith
  then show ?thesis using False by (simp add: py_int_def)
qed

lemma wider_exact:
  assumes m: "monotone_rounding rnd" and t: "rnd t = t" and h: "0 < h"
    and c: "rnd (real_of_int w / real_of_int h) > t"
  shows "t < real_of_int w / real_of_int h"
proof -
  have "\<not> real_of_int w / real_of_int h \<le> t"
  proof
    assume "real_of_int w / real_of_int h \<le> t"
    then have "rnd (real_of_int w / real_of_int h) \<le> rnd t"
      using m by (simp add: monotone_rounding_def)
    with c t show False by simp
  qed
  then show ?thesis by simp
qed

lemma taller_exact:
  assumes m: "monotone_rounding rnd" and t: "rnd t = t"
    and c: "rnd (real_of_int w / real_of_int h) < t"
  shows "real_of_int w / real_of_int h < t"
proof -
  have "\<not> t \<le> real_of_int w / real_of_int h"
  proof
    assume "t \<le> real_of_int w / real_of_int h"
    then have "rnd t \<le> rnd (real_of_int w / real_of_int h)"
      using m by (simp add: monotone_rounding_def)
    with c t show False by simp
  qed
  then show ?thesis by simp
qed

lemma new_width_le:
  assumes m: "monotone_rounding rnd" and t: "rnd t = t" and h: "0 < h" and w: "0 \<le> w"
    and rw: "rnd (real_of_int w) = real_of_int w"
    and c: "rnd (real_of_int w / real_of_int h) > t"
  shows "py_int (rnd (real_of_int h * t)) \<le> w"
proof -
  have "t < real_of_int w / real_of_int h"
    using wider_exact [OF m t h c] .
  then have "real_of_int h * t \<le> real_of_int w"
    using h by (simp add: pos_less_divide_eq mult.commute)
  then have "rnd (real_of_int h * t) \<le> rnd (real_of_int w)"
    using m by (simp add: monotone_rounding_def)
  then show ?thesis using rw w by (intro py_int_le) simp_all
qed

lemma new_height_le:
  assumes m: "monotone_rounding rnd" and t: "rnd t = t" and h: "0 < h" and tp: "0 < t"
    and rh: "rnd (real_of_int h) = real_of_int h"
    and c: "rnd (real_of_int w / real_of_int h) < t"
  shows "py_int (rnd (real_of_int w / t)) \<le> h"
proof -
  have "real_of_int w / real_of_int h < t"
    using taller_exact [OF m t c] .
  then have "real_of_int w < t * real_of_int h"
    using h by (simp add: pos_divide_less_eq)
  then have "real_of_int w / t \<le> real_of_int h"
    using tp by (simp add: pos_divide_le_eq mult.commute)
  then have "rnd (real_of_int w / t) \<le> rnd (real_of_int h)"
    using m by (simp add: monotone_rounding_def)
  then show ?thesis using rh h by (intro py_int_le) simp_all
qed

text \<open>
  Claim C9. For an image with positive sides and a positive target ratio, the crop
  step returns an image that is no wider and no higher than its input, and it leaves
  the width or the height as it was: at most one of the two is reduced. The rounding
  is any monotone one under which the target ratio and the two sides are floats.
\<close>

theorem crop_to_aspect_never_enlarges:
  assumes m: "monotone_rounding rnd" and t: "rnd t = t"
    and rw: "rnd (real_of_int (width img)) = real_of_int (width img)"
    and rh: "rnd (real_of_int (height img)) = real_of_int (height img)"
    and w: "0 < width img" and h: "0 < height img" and tp: "0 < t"
  shows "\<exists>img'. crop_to_aspect rnd img t = Inr img'
           \<and> width img' \<le> width img \<and> height img' \<le> height img
           \<and> (width img' = width img \<or> height img' = height img)"
proof -
  let ?c = "rnd (real_of_int (width img) / real_of_int (height img))"
  consider (wide) "?c > t" | (tall) "?c < t" | (same) "?c = t" by linarith
  then show ?thesis
  proof cases
    case wide
    have "py_int (rnd (real_of_int (height img) * t)) \<le> width img"
      using new_width_le [OF m t h _ rw wide] w by simp
    then show ?thesis using wide h
      by (simp add: crop_to_aspect_def Let_def crop_def)
  next
    case tall
    have "py_int (rnd (real_of_int (width img) / t)) \<le> height img"
      using new_height_le [OF m t h tp rh tall] by simp
    then show ?thesis using tall h tp
      by (simp add: crop_to_aspect_def Let_def crop_def)
  next
    case same
    then show ?thesis using h by (simp add: crop_to_aspect_def Let_def)
  qed
qed

theorem crop_to_aspect_never_enlarges_witness:
  "\<exists>img'. crop_to_aspect id \<lparr>width = 5, height = 4, pixel = Pair\<rparr> 1 = Inr img'
      \<and> width img' \<le> 5 \<and> height img' \<le> 4 \<and> (width img' = 5 \<or> height img' = 4)"
proof -
  let ?img = "\<lparr>width = 5, height = 4, pixel = Pair\<rparr> :: (int \<times> int) image"
  have m: "monotone_rounding id" by (simp add: monotone_rounding_def)
  show ?thesis
    using crop_to_aspect_never_enlarges [where rnd = id and img = ?img and t = 1, OF m]
    by simp
qed

text \<open>
  Claim C5, as stated, asks for equal amounts on both sides. A 5 by 4 image cropped
  to the ratio 1 keeps the columns 0 to 3: nothing is cut on the left and one column
  on the right. (All the numbers involved are floats, so no rounding takes place.)
\<close>

text \<open>
  Claim C5, as stated, asks for equal amounts on both sides. A 5 by 4 image cropped
  to the ratio 1 keeps the columns 0 to 3: nothing is cut on the left and one column
  on the right. (All the numbers involved are floats, so no rounding takes place.)
\<close>

theorem crop_to_aspect_equal_sides_counterexample:
  "crop_to_aspect id \<lparr>width = 5, height = 4, pixel = Pair\<rparr> 1
     = Inr (crop \<lparr>width = 5, height = 4, pixel = Pair\<rparr> (0, 0, 4, 4))"
  by (simp add: crop_to_aspect_def py_int_def crop_def)

text \<open>
  Claim C5, amended. The crop step compares the ratio it computes, \<open>rnd (width /
  height)\<close>, with the target ratio \<open>t\<close>.
  \<^item> When the two are equal, the image is returned unchanged.
  \<^item> When the computed ratio is larger, the image is wider than the target ratio
    and only columns are cut: with \<open>e = width - int (height * t)\<close>, which is not
    negative, \<open>e div 2\<close> columns are cut on the left and the other \<open>e - e div 2\<close> on the
    right, and every row is kept.
  \<^item> When it is smaller, the image is taller than the target ratio and only rows are
    cut: with \<open>e = height - int (width / t)\<close>, which is not negative, \<open>e div 2\<close> rows are
    cut at the top and the other \<open>e - e div 2\<close> at the bottom, and every column is kept.
  The two amounts are equal when \<open>e\<close> is even; when it is odd, the right (bottom) side
  loses one pixel more: \<open>e div 2 \<le> e - e div 2 \<le> e div 2 + 1\<close>.
\<close>

theorem crop_to_aspect_one_dimension:
  assumes m: "monotone_rounding rnd" and t: "rnd t = t"
    and rw: "rnd (real_of_int (width img)) = real_of_int (width img)"
    and rh: "rnd (real_of_int (height img)) = real_of_int (height img)"
    and w: "0 < width img" and h: "0 < height img" and tp: "0 < t"
  shows "(rnd (real_of_int (width img) / real_of_int (height img)) = t \<longrightarrow>
            crop_to_aspect rnd img t = Inr img)
       \<and> (rnd (real_of_int (width img) / real_of_int (height img)) > t \<longrightarrow>
            t < real_of_int (width img) / real_of_int (height img)
            \<and> (let e = width img - py_int (rnd (real_of_int (height img) * t)) in
                 0 \<le> e \<and> e div 2 \<le> e - e div 2 \<and> e - e div 2 \<le> e div 2 + 1
                 \<and> crop_to_aspect rnd img t
                     = Inr (crop img (e div 2, 0, width img - (e - e div 2), height img))))
       \<and> (rnd (real_of_int (width img) / real_of_int (height img)) < t \<longrightarrow>
            real_of_int (width img) / real_of_int (height img) < t
            \<and> (let e = height img - py_int (rnd (real_of_int (width img) / t)) in
                 0 \<le> e \<and> e div 2 \<le> e - e div 2 \<and> e - e div 2 \<le> e div 2 + 1
                 \<and> crop_to_aspect rnd img t
                     = Inr (crop img (0, e div 2, width img, height img - (e - e div 2)))))"
proof (intro conjI impI)
  assume "rnd (real_of_int (width img) / real_of_int (height img)) = t"
  then show "crop_to_aspect rnd img t = Inr img"
    using h by (simp add: crop_to_aspect_def)
next
  assume wide: "rnd (real_of_int (width img) / real_of_int (height img)) > t"
  then show "t < real_of_int (width img) / real_of_int (height img)"
    using wider_exact [OF m t h] by blast
next
  assume wide: "rnd (real_of_int (width img) / real_of_int (height img)) > t"
  let ?nw = "py_int (rnd (real_of_int (height img) * t))"
  let ?e = "width img - ?nw"
  have le: "?nw \<le> width img"
    using new_width_le [OF m t h _ rw wide] w by simp
  have e0: "0 \<le> ?e" using le by simp
  have box: "?e div 2 + ?nw = width img - (?e - ?e div 2)" by linarith
  have "crop_to_aspect rnd img t = Inr (crop img (?e div 2, 0, ?e div 2 + ?nw, height img))"
    using wide h by (simp add: crop_to_aspect_def Let_def)
  then have res: "crop_to_aspect rnd img t
      = Inr (crop img (?e div 2, 0, width img - (?e - ?e div 2), height img))"
    using box by simp
  have halves: "?e div 2 \<le> ?e - ?e div 2" "?e - ?e div 2 \<le> ?e div 2 + 1"
    using e0 by linarith+
  show "let e = width img - py_int (rnd (real_of_int (height img) * t)) in
          0 \<le> e \<and> e div 2 \<le> e - e div 2 \<and> e - e div 2 \<le> e div 2 + 1
          \<and> crop_to_aspect rnd img t
              = Inr (crop img (e div 2, 0, width img - (e - e div 2), height img))"
    unfolding Let_def using e0 halves res by blast
next
  assume tall: "rnd (real_of_int (width img) / real_of_int (height img)) < t"
  then show "real_of_int (width img) / real_of_int (height img) < t"
    using taller_exact [OF m t] by blast
next
  assume tall: "rnd (real_of_int (width img) / real_of_int (height img)) < t"
  let ?nh = "py_int (rnd (real_of_int (width img) / t))"
  let ?e = "height img - ?nh"
  have le: "?nh \<le> height img"
    using new_height_le [OF m t h tp rh tall] by simp
  have e0: "0 \<le> ?e" using le by simp
  have box: "?e div 2 + ?nh = height img - (?e - ?e div 2)" by linarith
  have "crop_to_aspect rnd img t = Inr (crop img (0, ?e div 2, width img, ?e div 2 + ?nh))"
    using tall h tp by (simp add: crop_to_aspect_def Let_def)
  then have res: "crop_to_aspect rnd img t
      = Inr (crop img (0, ?e div 2, width img, height img - (?e - ?e div 2)))"
    using box by simp
  have halves: "?e div 2 \<le> ?e - ?e div 2" "?e - ?e div 2 \<le> ?e div 2 + 1"
    using e0 by linarith+
  show "let e = height img - py_int (rnd (real_of_int (width img) / t)) in
          0 \<le> e \<and> e div 2 \<le> e - e div 2 \<and> e - e div 2 \<le> e div 2 + 1
          \<and> crop_to_aspect rnd img t
              = Inr (crop img (0, e div 2, width img, height img - (e - e div 2)))"
    unfolding Let_def using e0 halves res by blast
qed

theorem crop_to_aspect_one_dimension_witness:
  "crop_to_aspect id \<lparr>width = 7, height = 4, pixel = Pair\<rparr> 1
     = Inr (crop \<lparr>width = 7, height = 4, pixel = Pair\<rparr> (1, 0, 5, 4))
   \<and> crop_to_aspect id \<lparr>width = 4, height = 7, pixel = Pair\<rparr> 1
     = Inr (crop \<lparr>width = 4, height = 7, pixel = Pair\<rparr> (0, 1, 4, 5))
   \<and> crop_to_aspect id \<lparr>width = 8, height = 6, pixel = Pair\<rparr> (4 / 3)
     = Inr \<lparr>width = 8, height = 6, pixel = Pair\<rparr>"
proof -
  let ?wide = "\<lparr>width = 7, height = 4, pixel = Pair\<rparr> :: (int \<times> int) image"
  let ?tall = "\<lparr>width = 4, height = 7, pixel = Pair\<rparr> :: (int \<times> int) image"
  let ?same = "\<lparr>width = 8, height = 6, pixel = Pair\<rparr> :: (int \<times> int) image"
  have m: "monotone_rounding id" by (simp add: monotone_rounding_def)
  have "id (real_of_int (width ?wide) / real_of_int (height ?wide)) > 1" by simp
  then have "let e = width ?wide - py_int (id (real_of_int (height ?wide) * 1)) in
      0 \<le> e \<and> e div 2 \<le> e - e div 2 \<and> e - e div 2 \<le> e div 2 + 1
      \<and> crop_to_aspect id ?wide 1
          = Inr (crop ?wide (e div 2, 0, width ?wide - (e - e div 2), height ?wide))"
    using crop_to_aspect_one_dimension [where rnd = id and img = ?wide and t = 1, OF m]
    by simp
  then have 1: "crop_to_aspect id ?wide 1 = Inr (crop ?wide (1, 0, 5, 4))"
    by (simp add: Let_def py_int_def)
  have "id (real_of_int (width ?tall) / real_of_int (height ?tall)) < 1" by simp
  then have "let e = height ?tall - py_int (id (real_of_int (width ?tall) / 1)) in
      0 \<le> e \<and> e div 2 \<le> e - e div 2 \<and> e - e div 2 \<le> e div 2 + 1
      \<and> crop_to_aspect id ?tall 1
          = Inr (crop ?tall (0, e div 2, width ?tall, height ?tall - (e - e div 2)))"
    using crop_to_aspect_one_dimension [where rnd = id and img = ?tall and t = 1, OF m]
    by simp
  then have 2: "crop_to_aspect id ?tall 1 = Inr (crop ?tall (0, 1, 4, 5))"
    by (simp add: Let_def py_int_def)
  have "id (real_of_int (width ?same) / real_of_int (height ?same)) = 4 / 3" by simp
  then have 3: "crop_to_aspect id ?same (4 / 3) = Inr ?same"
    using crop_to_aspect_one_dimension [where rnd = id and img = ?same and t = "4 / 3", OF m]
    by simp
  from 1 2 3 show ?thesis by blast
qed

section \<open>Properties of the Format Converter\<close>

lemma endswith_last:
  assumes "endswith s suffix" and "suffix \<noteq> []"
  shows "last s = last suffix"
proof -
  have "s = take (length s - length suffix) s @ suffix"
    using assms(1) by (metis append_take_drop_id endswith_def)
  then have "last s = last (take (length s - length suffix) s @ suffix)" by simp
  then show ?thesis using assms(2) by simp
qed

lemma extension_cases:
  assumes "format_extensions fmt = Some file_extension"
  shows "file_extension = ''.jpg'' \<or> file_extension = ''.png'' \<or> file_extension = ''.webp''"
  using assms by (auto simp: format_extensions_def split: if_splits)

lemma output_is_not_source:
  assumes src: "endswith heic_file ''.heic'' \<or> endswith heic_file ''.HEIC''"
      and ext: "format_extensions fmt = Some file_extension"
  shows "stem heic_file @ file_extension \<noteq> heic_file"
proof
  assume eq: "stem heic_file @ file_extension = heic_file"
  have l1: "last heic_file = CHR ''c'' \<or> last heic_file = CHR ''C''"
    using src endswith_last [of heic_file "''.heic''"] endswith_last [of heic_file "''.HEIC''"]
    by auto
  have l2: "last (stem heic_file @ file_extension) = CHR ''g''
          \<or> last (stem heic_file @ file_extension) = CHR ''p''"
    using extension_cases [OF ext] by auto
  show False using l1 l2 eq by auto
qed

text \<open>
  Claim C1, as stated, has the source removed whenever the output was written. When
  the delete itself raises, the output has been written and the source stays.
\<close>

theorem convert_one_delete_fails_counterexample:
  "convert_one \<lparr>decode = Some, save = (\<lambda>img name. Some img), can_unlink = (\<lambda>name. False)\<rparr>
      True ''.jpg'' [''a.heic'' \<mapsto> ''pixels''] ''a.heic''
   = ([''a.heic'' \<mapsto> ''pixels'', ''a.jpg'' \<mapsto> ''pixels''], False, Failed_to_convert ''a.heic'')"
  by (simp add: convert_one_def stem_def rfind_dot_def Let_def)

text \<open>
  Claim C1, amended. For a discovered file (its name ends with \<open>.heic\<close> or \<open>.HEIC\<close>)
  converted with delete-original set: the source is removed if and only if the
  output was written and the delete raised no error; a conversion that fails leaves
  the directory as it was, so it never deletes its source; the bytes written stay at
  the output path whether or not the delete succeeds; a delete that raises is
  reported as a failure of that file and leaves the source in place; and the file
  counts as a success exactly when its source was removed.
\<close>

theorem convert_one_delete_original:
  assumes src: "endswith heic_file ''.heic'' \<or> endswith heic_file ''.HEIC''"
      and ext: "format_extensions fmt = Some file_extension"
      and present: "files heic_file \<noteq> None"
      and res: "convert_one env True file_extension files heic_file = (files', success, msg)"
  shows "(files' heic_file = None \<longleftrightarrow>
            converted env file_extension files heic_file \<noteq> None \<and> can_unlink env heic_file)
       \<and> (converted env file_extension files heic_file = None \<longrightarrow> files' = files \<and> \<not> success)
       \<and> (\<forall>written. converted env file_extension files heic_file = Some written \<longrightarrow>
             files' (stem heic_file @ file_extension) = Some written)
       \<and> (converted env file_extension files heic_file \<noteq> None \<and> \<not> can_unlink env heic_file \<longrightarrow>
             \<not> success \<and> msg = Failed_to_convert heic_file
             \<and> files' heic_file = files heic_file)
       \<and> (success \<longleftrightarrow> files' heic_file = None)"
proof -
  have ne: "stem heic_file @ file_extension \<noteq> heic_file"
    using output_is_not_source [OF src ext] .
  show ?thesis
    using res present ne
    by (auto simp: convert_one_def converted_def Let_def split: option.splits if_splits)
qed

theorem convert_one_delete_original_witness:
  "convert_one \<lparr>decode = Some, save = (\<lambda>img name. Some img), can_unlink = (\<lambda>name. True)\<rparr>
      True ''.jpg'' [''a.heic'' \<mapsto> ''pixels''] ''a.heic''
   = ([''a.heic'' \<mapsto> ''pixels'', ''a.jpg'' \<mapsto> ''pixels''](''a.heic'' := None), True,
      Converted_and_deleted ''a.heic'' ''a.jpg'')
   \<and> ([''a.heic'' \<mapsto> ''pixels'', ''a.jpg'' \<mapsto> ''pixels''](''a.heic'' := None)) ''a.heic'' = None"
proof -
  let ?env = "\<lparr>decode = Some, save = (\<lambda>img name. Some img), can_unlink = (\<lambda>name. True)\<rparr>
                :: (string, string) codec"
  let ?files = "[''a.heic'' \<mapsto> ''pixels''] :: string directory"
  let ?files' = "[''a.heic'' \<mapsto> ''pixels'', ''a.jpg'' \<mapsto> ''pixels''](''a.heic'' := None)"
  have src: "endswith ''a.heic'' ''.heic'' \<or> endswith ''a.heic'' ''.HEIC''"
    by (simp add: endswith_def)
  have ext: "format_extensions ''JPEG'' = Some ''.jpg''"
    by (simp add: format_extensions_def)
  have present: "?files ''a.heic'' \<noteq> None" by simp
  have res: "convert_one ?env True ''.jpg'' ?files ''a.heic''
               = (?files', True, Converted_and_deleted ''a.heic'' ''a.jpg'')"
    by (simp add: convert_one_def stem_def rfind_dot_def Let_def)
  have "True \<longleftrightarrow> ?files' ''a.heic'' = None"
    using convert_one_delete_original [OF src ext present res] by blast
  with res show ?thesis by simp
qed

text \<open>
  Claim C2. The two patterns \<open>*.heic\<close> and \<open>*.HEIC\<close> are matched case-sensitively:
  of the three HEIC files below, the one with the mixed-case extension is not found.
\<close>

theorem find_heic_files_misses_mixed_case:
  "find_heic_files [''photo.Heic'', ''a.heic'', ''B.HEIC''] = [''a.heic'', ''B.HEIC'']"
  by (simp add: find_heic_files_def glob_star_def endswith_def)

section \<open>Exit status\<close>






section \<open>Properties of the pagination\<close>











lemma process_image_skipped:
  assumes "process_image L store p w_in h_in resolution = Inr (lines, None, store1)"
  shows "store1 = store"
  using assms
  by (auto simp: process_image_def Let_def split: sum.splits if_splits)



section \<open>Properties of the layout loops\<close>






section \<open>Properties of the composer\<close>












section \<open>Pagination of the layout\<close>




section \<open>Properties of the fit check\<close>









section \<open>The warning about the footprint\<close>




section \<open>Sequential and parallel runs agree\<close>

lemma output_never_source:
  assumes src: "endswith f ''.heic'' \<or> endswith f ''.HEIC''"
      and ext: "format_extensions fmt = Some file_extension"
  shows "stem g @ file_extension \<noteq> f"
proof
  assume eq: "stem g @ file_extension = f"
  have l1: "last f = CHR ''c'' \<or> last f = CHR ''C''"
    using src endswith_last [of f "''.heic''"] endswith_last [of f "''.HEIC''"] by auto
  have l2: "last (stem g @ file_extension) = CHR ''g''
          \<or> last (stem g @ file_extension) = CHR ''p''"
    using extension_cases [OF ext] by auto
  show False using l1 l2 eq by auto
qed

lemma phase_ok_same_source:
  assumes "files' f = files f"
  shows "phase_ok env d ext files0 files' f ph = phase_ok env d ext files0 files f ph"
  using assms by (cases ph) (simp_all add: phase_ok_def)

lemma predicted_unfold:
  "predicted env d ext files0 f
     = (case converted env ext files0 f of
          None \<Rightarrow> (False, Failed_to_convert f)
        | Some written \<Rightarrow>
            if d then
              if can_unlink env f \<and> (files0(stem f @ ext \<mapsto> written)) f \<noteq> None
              then (True, Converted_and_deleted f (stem f @ ext))
              else (False, Failed_to_convert f)
            else (True, Converted f (stem f @ ext)))"
  by (simp add: predicted_def convert_one_def converted_def Let_def split: option.splits)

lemma task_step_cases:
  assumes ok: "phase_ok env d ext files0 files f ph"
      and nf: "\<not> is_finished ph"
      and ne: "stem f @ ext \<noteq> f"
      and st: "task_step env d ext files f ph = (files', ph')"
  shows "phase_ok env d ext files0 files' f ph'
       \<and> steps_left ph' < steps_left ph
       \<and> ((files' = files
            \<and> has_written env ext files0 f ph' = has_written env ext files0 f ph
            \<and> \<not> has_removed d ph')
          \<or> ((\<exists>written. files' = files(stem f @ ext \<mapsto> written)
                         \<and> converted env ext files0 f = Some written)
              \<and> has_written env ext files0 f ph' \<and> \<not> has_removed d ph')
          \<or> (files' = files(f := None)
              \<and> has_written env ext files0 f ph \<and> has_written env ext files0 f ph'
              \<and> has_removed d ph'))"
proof (cases ph)
  case Start
  then show ?thesis
    using ok st
    by (auto simp: task_step_def phase_ok_def has_written_def has_removed_def predicted_unfold
          converted_def Let_def split: option.splits)
next
  case (Decoded img)
  then show ?thesis
    using ok st ne
    by (auto simp: task_step_def phase_ok_def has_written_def has_removed_def predicted_unfold
          converted_def Let_def split: option.splits if_splits)
next
  case Written
  then show ?thesis
    using ok st ne
    by (auto simp: task_step_def phase_ok_def has_written_def has_removed_def predicted_unfold
          Let_def split: option.splits if_splits)
next
  case (Finished success msg)
  then show ?thesis using nf by simp
qed

lemma ex_nth_update:
  assumes "i < length ps" and "length ps = n"
  shows "(\<exists>j<n. Q j (ps[i := x] ! j)) = ((\<exists>j<n. j \<noteq> i \<and> Q j (ps ! j)) \<or> Q i x)"
proof
  assume "\<exists>j<n. Q j (ps[i := x] ! j)"
  then obtain j where j: "j < n" "Q j (ps[i := x] ! j)" by blast
  show "(\<exists>j<n. j \<noteq> i \<and> Q j (ps ! j)) \<or> Q i x"
  proof (cases "j = i")
    case True
    then show ?thesis using j assms by simp
  next
    case False
    then have "Q j (ps ! j)" using j by simp
    then show ?thesis using False j by blast
  qed
next
  assume "(\<exists>j<n. j \<noteq> i \<and> Q j (ps ! j)) \<or> Q i x"
  then show "\<exists>j<n. Q j (ps[i := x] ! j)"
  proof
    assume "\<exists>j<n. j \<noteq> i \<and> Q j (ps ! j)"
    then obtain j where "j < n" "j \<noteq> i" "Q j (ps ! j)" by blast
    then have "Q j (ps[i := x] ! j)" by simp
    then show ?thesis using \<open>j < n\<close> by blast
  next
    assume "Q i x"
    then have "Q i (ps[i := x] ! i)" using assms by simp
    then show ?thesis using assms by blast
  qed
qed

lemma ex_nth_split:
  assumes "i < length ps" and "length ps = n"
  shows "(\<exists>j<n. Q j (ps ! j)) = ((\<exists>j<n. j \<noteq> i \<and> Q j (ps ! j)) \<or> Q i (ps ! i))"
  using ex_nth_update [OF assms, of Q "ps ! i"] by simp

lemma unfinished_flags:
  assumes "\<not> is_finished ph"
  shows "\<not> has_removed d ph"
  using assms by (cases ph) (simp_all add: has_removed_def)

lemma advance_preserves:
  assumes dist: "distinct heic_files"
      and src: "\<forall>f\<in>set heic_files. endswith f ''.heic'' \<or> endswith f ''.HEIC''"
      and ext: "format_extensions fmt = Some ext"
      and inv: "pool_invariant env d ext files0 heic_files st"
  shows "pool_invariant env d ext files0 heic_files (advance env d ext heic_files i st)"
proof (cases "i < length heic_files \<and> i < length (phases st) \<and> \<not> is_finished (phases st ! i)")
  case False
  then have "advance env d ext heic_files i st = st" by (auto simp: advance_def)
  then show ?thesis using inv by simp
next
  case True
  let ?n = "length heic_files"
  let ?F = heic_files
  let ?ps = "phases st"
  let ?files = "pool_files st"
  let ?f = "heic_files ! i"
  let ?ph = "phases st ! i"
  let ?out = "\<lambda>g. stem g @ ext"
  have i: "i < ?n" and unfinished: "\<not> is_finished ?ph" using True by simp_all
  have len: "length ?ps = ?n" using inv by (simp add: pool_invariant_def)
  have i_ps: "i < length ?ps" using i len by simp
  have oks: "\<forall>j<?n. phase_ok env d ext files0 ?files (?F ! j) (?ps ! j)"
    using inv by (simp add: pool_invariant_def)
  have dom0: "\<forall>name. (?files name \<noteq> None)
      = ((files0 name \<noteq> None
          \<and> \<not> (\<exists>j<?n. name = ?F ! j \<and> has_removed d (?ps ! j)))
         \<or> (\<exists>j<?n. name = ?out (?F ! j) \<and> has_written env ext files0 (?F ! j) (?ps ! j)))"
    using inv by (simp add: pool_invariant_def)
  obtain order where
    order: "distinct order" "set order = {j. j < ?n \<and> is_finished (?ps ! j)}"
      "completed st = map (\<lambda>j. predicted env d ext files0 (?F ! j)) order"
    using inv unfolding pool_invariant_def by blast
  obtain files' ph' where step: "task_step env d ext ?files ?f ?ph = (files', ph')"
    by (cases "task_step env d ext ?files ?f ?ph")
  let ?ps' = "?ps[i := ph']"
  let ?done = "case ph' of Finished success msg \<Rightarrow> completed st @ [(success, msg)]
                 | _ \<Rightarrow> completed st"
  have adv: "advance env d ext heic_files i st
      = \<lparr>pool_files = files', phases = ?ps', completed = ?done\<rparr>"
    using True step by (simp add: advance_def)
  have f_src: "endswith ?f ''.heic'' \<or> endswith ?f ''.HEIC''" using src i by simp
  have no_clash: "\<And>g j. j < ?n \<Longrightarrow> ?out g \<noteq> ?F ! j"
    using output_never_source [OF _ ext] src by simp
  have ne: "?out ?f \<noteq> ?f" using no_clash [OF i] .
  have ok_i: "phase_ok env d ext files0 ?files ?f ?ph" using oks i by blast
  note cases = task_step_cases [OF ok_i unfinished ne step]
  have ok': "phase_ok env d ext files0 files' ?f ph'" using cases by blast
  have eff: "(files' = ?files
            \<and> has_written env ext files0 ?f ph' = has_written env ext files0 ?f ?ph
            \<and> \<not> has_removed d ph')
          \<or> ((\<exists>written. files' = ?files(?out ?f \<mapsto> written)
                         \<and> converted env ext files0 ?f = Some written)
              \<and> has_written env ext files0 ?f ph' \<and> \<not> has_removed d ph')
          \<or> (files' = ?files(?f := None)
              \<and> has_written env ext files0 ?f ?ph \<and> has_written env ext files0 ?f ph'
              \<and> has_removed d ph')"
    using cases by blast
  have not_removed: "\<not> has_removed d ?ph" using unfinished by (rule unfinished_flags)
  \<comment> \<open>the other tasks still see their own source as before\<close>
  have others_files: "\<And>j. j < ?n \<Longrightarrow> j \<noteq> i \<Longrightarrow> files' (?F ! j) = ?files (?F ! j)"
  proof -
    fix j assume j: "j < ?n" "j \<noteq> i"
    have d1: "?F ! j \<noteq> ?F ! i" using dist i j by (simp add: nth_eq_iff_index_eq)
    have d2: "?F ! j \<noteq> ?out ?f" using no_clash [OF j(1), of ?f] by simp
    show "files' (?F ! j) = ?files (?F ! j)" using eff d1 d2 by auto
  qed
  have c2: "\<forall>j<?n. phase_ok env d ext files0 files' (?F ! j) (?ps' ! j)"
  proof (intro allI impI)
    fix j assume j: "j < ?n"
    show "phase_ok env d ext files0 files' (?F ! j) (?ps' ! j)"
    proof (cases "j = i")
      case True
      then show ?thesis using ok' i_ps by simp
    next
      case False
      have "phase_ok env d ext files0 files' (?F ! j) (?ps ! j)"
        using phase_ok_same_source
            [where files' = files' and files = ?files and f = "?F ! j",
             OF others_files [OF j False]] oks j
        by blast
      then show ?thesis using False by simp
    qed
  qed
  \<comment> \<open>the names in the directory\<close>
  define A where "A name = (\<exists>j<?n. j \<noteq> i \<and> name = ?F ! j \<and> has_removed d (?ps ! j))" for name
  define B where "B name = (\<exists>j<?n. j \<noteq> i \<and> name = ?out (?F ! j)
                                \<and> has_written env ext files0 (?F ! j) (?ps ! j))" for name
  have R_old: "\<And>name. (\<exists>j<?n. name = ?F ! j \<and> has_removed d (?ps ! j))
      = (A name \<or> (name = ?f \<and> has_removed d ?ph))"
    unfolding A_def
    using ex_nth_split [OF i_ps len, of "\<lambda>j p. _ = ?F ! j \<and> has_removed d p"] by simp
  have R_new: "\<And>name. (\<exists>j<?n. name = ?F ! j \<and> has_removed d (?ps' ! j))
      = (A name \<or> (name = ?f \<and> has_removed d ph'))"
    unfolding A_def
    using ex_nth_update [OF i_ps len, of "\<lambda>j p. _ = ?F ! j \<and> has_removed d p"] by simp
  have W_old: "\<And>name. (\<exists>j<?n. name = ?out (?F ! j)
                        \<and> has_written env ext files0 (?F ! j) (?ps ! j))
      = (B name \<or> (name = ?out ?f \<and> has_written env ext files0 ?f ?ph))"
    unfolding B_def
    using ex_nth_split [OF i_ps len,
        of "\<lambda>j p. _ = ?out (?F ! j) \<and> has_written env ext files0 (?F ! j) p"] by simp
  have W_new: "\<And>name. (\<exists>j<?n. name = ?out (?F ! j)
                        \<and> has_written env ext files0 (?F ! j) (?ps' ! j))
      = (B name \<or> (name = ?out ?f \<and> has_written env ext files0 ?f ph'))"
    unfolding B_def
    using ex_nth_update [OF i_ps len,
        of "\<lambda>j p. _ = ?out (?F ! j) \<and> has_written env ext files0 (?F ! j) p"] by simp
  have B_not_source: "\<And>name. B name \<Longrightarrow> name \<noteq> ?f"
    unfolding B_def using no_clash [OF i] by auto
  have old: "\<And>name. (?files name \<noteq> None)
      = ((files0 name \<noteq> None \<and> \<not> A name)
         \<or> B name \<or> (name = ?out ?f \<and> has_written env ext files0 ?f ?ph))"
    using dom0 R_old W_old not_removed by simp
  have c3: "\<forall>name. (files' name \<noteq> None)
      = ((files0 name \<noteq> None
          \<and> \<not> (\<exists>j<?n. name = ?F ! j \<and> has_removed d (?ps' ! j)))
         \<or> (\<exists>j<?n. name = ?out (?F ! j) \<and> has_written env ext files0 (?F ! j) (?ps' ! j)))"
  proof
    fix name
    have goal: "(files' name \<noteq> None)
        = ((files0 name \<noteq> None \<and> \<not> (A name \<or> (name = ?f \<and> has_removed d ph')))
           \<or> (B name \<or> (name = ?out ?f \<and> has_written env ext files0 ?f ph')))"
      using eff
    proof (elim disjE conjE exE)
      assume "files' = ?files"
        "has_written env ext files0 ?f ph' = has_written env ext files0 ?f ?ph"
        "\<not> has_removed d ph'"
      then show ?thesis using old [of name] by simp
    next
      fix written
      assume "files' = ?files(?out ?f \<mapsto> written)"
        "has_written env ext files0 ?f ph'" "\<not> has_removed d ph'"
      then show ?thesis using old [of name] by auto
    next
      assume "files' = ?files(?f := None)"
        "has_written env ext files0 ?f ?ph" "has_written env ext files0 ?f ph'"
        "has_removed d ph'"
      then show ?thesis using old [of name] B_not_source [of name] ne by auto
    qed
    show "(files' name \<noteq> None)
      = ((files0 name \<noteq> None
          \<and> \<not> (\<exists>j<?n. name = ?F ! j \<and> has_removed d (?ps' ! j)))
         \<or> (\<exists>j<?n. name = ?out (?F ! j) \<and> has_written env ext files0 (?F ! j) (?ps' ! j)))"
      unfolding R_new W_new using goal .
  qed
  \<comment> \<open>the completed results\<close>
  have i_new: "i \<notin> set order" using order(2) unfinished by simp
  have c4: "\<exists>order'. distinct order'
      \<and> set order' = {j. j < ?n \<and> is_finished (?ps' ! j)}
      \<and> ?done = map (\<lambda>j. predicted env d ext files0 (?F ! j)) order'"
  proof (cases "is_finished ph'")
    case True
    then obtain success msg where ph': "ph' = Finished success msg" by (cases ph') simp_all
    have res: "(success, msg) = predicted env d ext files0 ?f"
      using ok' ph' by (simp add: phase_ok_def)
    have "distinct (order @ [i])" using order(1) i_new by simp
    moreover have "set (order @ [i]) = {j. j < ?n \<and> is_finished (?ps' ! j)}"
    proof -
      have "\<And>j. j < ?n \<Longrightarrow> is_finished (?ps' ! j) = (j = i \<or> is_finished (?ps ! j))"
        using True i_ps by (simp add: nth_list_update)
      then show ?thesis using order(2) i by auto
    qed
    moreover have "?done = map (\<lambda>j. predicted env d ext files0 (?F ! j)) (order @ [i])"
      using order(3) ph' res by simp
    ultimately show ?thesis by blast
  next
    case False
    then have same: "?done = completed st" by (cases ph') simp_all
    have "\<And>j. j < ?n \<Longrightarrow> is_finished (?ps' ! j) = is_finished (?ps ! j)"
      using False unfinished i_ps by (auto simp: nth_list_update)
    then have "set order = {j. j < ?n \<and> is_finished (?ps' ! j)}" using order(2) by auto
    then show ?thesis using order(1) order(3) same by metis
  qed
  show ?thesis
    unfolding adv pool_invariant_def using len c2 c3 c4 by simp
qed

lemma pool_invariant_init:
  "pool_invariant env d ext files0 heic_files
     \<lparr>pool_files = files0, phases = replicate (length heic_files) Start, completed = []\<rparr>"
proof -
  let ?st = "\<lparr>pool_files = files0, phases = replicate (length heic_files) Start,
              completed = []\<rparr> :: ('a, 'b) pool"
  have ph: "\<And>i. i < length heic_files \<Longrightarrow> phases ?st ! i = Start" by simp
  have 1: "length (phases ?st) = length heic_files" by simp
  have 2: "\<forall>i<length heic_files.
             phase_ok env d ext files0 (pool_files ?st) (heic_files ! i) (phases ?st ! i)"
    by (simp add: phase_ok_def)
  have 3: "\<forall>name. (pool_files ?st name \<noteq> None)
      = ((files0 name \<noteq> None
          \<and> \<not> (\<exists>i<length heic_files.
                  name = heic_files ! i \<and> has_removed d (phases ?st ! i)))
         \<or> (\<exists>i<length heic_files.
               name = stem (heic_files ! i) @ ext
               \<and> has_written env ext files0 (heic_files ! i) (phases ?st ! i)))"
    by (auto simp: has_removed_def has_written_def)
  have 4: "\<exists>order. distinct order
      \<and> set order = {i. i < length heic_files \<and> is_finished (phases ?st ! i)}
      \<and> completed ?st = map (\<lambda>i. predicted env d ext files0 (heic_files ! i)) order"
    by (rule exI [of _ "[]"]) auto
  show ?thesis
    unfolding pool_invariant_def using 1 2 3 4 by blast
qed

lemma run_schedule_preserves:
  assumes dist: "distinct heic_files"
      and src: "\<forall>f\<in>set heic_files. endswith f ''.heic'' \<or> endswith f ''.HEIC''"
      and ext: "format_extensions fmt = Some ext"
      and inv: "pool_invariant env d ext files0 heic_files st"
  shows "pool_invariant env d ext files0 heic_files (run_schedule env d ext heic_files schedule st)"
  using inv
proof (induction schedule arbitrary: st)
  case Nil
  then show ?case by simp
next
  case (Cons i schedule)
  have "pool_invariant env d ext files0 heic_files (advance env d ext heic_files i st)"
    using advance_preserves [OF dist src ext Cons.prems] .
  then show ?case using Cons.IH by simp
qed

lemma run_schedule_append:
  "run_schedule env d ext heic_files (s1 @ s2) st
     = run_schedule env d ext heic_files s2 (run_schedule env d ext heic_files s1 st)"
  by (induction s1 arbitrary: st) simp_all

lemma is_finished_steps_left: "is_finished ph = (steps_left ph = 0)"
  by (cases ph) simp_all

lemma task_step_decreases:
  assumes "\<not> is_finished ph"
  shows "steps_left (snd (task_step env d ext files f ph)) < steps_left ph"
  using assms by (cases ph) (auto simp: task_step_def Let_def split: option.splits)

lemma advance_length:
  "length (phases (advance env d ext heic_files i st)) = length (phases st)"
  by (auto simp: advance_def split: prod.splits)

lemma advance_steps_left:
  assumes "j < length (phases st)"
  shows "steps_left (phases (advance env d ext heic_files i st) ! j) \<le> steps_left (phases st ! j)"
proof (cases "i < length heic_files \<and> i < length (phases st) \<and> \<not> is_finished (phases st ! i)")
  case False
  then have "advance env d ext heic_files i st = st" by (auto simp: advance_def)
  then show ?thesis by simp
next
  case True
  obtain files' ph' where
    step: "task_step env d ext (pool_files st) (heic_files ! i) (phases st ! i) = (files', ph')"
    by (cases "task_step env d ext (pool_files st) (heic_files ! i) (phases st ! i)")
  have less: "steps_left ph' < steps_left (phases st ! i)"
    using task_step_decreases [of "phases st ! i" env d ext "pool_files st" "heic_files ! i"]
      True step by simp
  have "phases (advance env d ext heic_files i st) = (phases st)[i := ph']"
    using True step by (simp add: advance_def)
  then show ?thesis using less assms by (cases "j = i") simp_all
qed

lemma advance_own_step:
  assumes "i < length heic_files" and "i < length (phases st)"
  shows "steps_left (phases (advance env d ext heic_files i st) ! i)
           \<le> steps_left (phases st ! i) - 1"
proof (cases "is_finished (phases st ! i)")
  case True
  then have "advance env d ext heic_files i st = st" by (auto simp: advance_def)
  then show ?thesis using True by (simp add: is_finished_steps_left)
next
  case False
  obtain files' ph' where
    step: "task_step env d ext (pool_files st) (heic_files ! i) (phases st ! i) = (files', ph')"
    by (cases "task_step env d ext (pool_files st) (heic_files ! i) (phases st ! i)")
  have less: "steps_left ph' < steps_left (phases st ! i)"
    using task_step_decreases [of "phases st ! i" env d ext "pool_files st" "heic_files ! i"]
      False step by simp
  have "phases (advance env d ext heic_files i st) = (phases st)[i := ph']"
    using False assms step by (simp add: advance_def)
  then show ?thesis using less assms by simp
qed

lemma steps_left_bound: "steps_left ph \<le> 3"
  by (cases ph) simp_all

lemma three_steps_finish:
  assumes i: "i < length heic_files" and l: "i < length (phases st)"
  shows "is_finished (phases (run_schedule env d ext heic_files [i, i, i] st) ! i)"
proof -
  let ?a = "advance env d ext heic_files i"
  have l1: "i < length (phases (?a st))" using l by (simp add: advance_length)
  have l2: "i < length (phases (?a (?a st)))" using l1 by (simp add: advance_length)
  have "steps_left (phases (?a st) ! i) \<le> steps_left (phases st ! i) - 1"
    using advance_own_step [OF i l] .
  moreover have "steps_left (phases (?a (?a st)) ! i) \<le> steps_left (phases (?a st) ! i) - 1"
    using advance_own_step [OF i l1] .
  moreover have "steps_left (phases (?a (?a (?a st))) ! i)
      \<le> steps_left (phases (?a (?a st)) ! i) - 1"
    using advance_own_step [OF i l2] .
  moreover have "steps_left (phases st ! i) \<le> 3" by (rule steps_left_bound)
  ultimately have "steps_left (phases (?a (?a (?a st))) ! i) = 0" by linarith
  then show ?thesis by (simp add: is_finished_steps_left)
qed

lemma run_schedule_length:
  "length (phases (run_schedule env d ext heic_files schedule st)) = length (phases st)"
  by (induction schedule arbitrary: st) (simp_all add: advance_length)

lemma run_schedule_keeps_finished:
  assumes "j < length (phases st)" and "is_finished (phases st ! j)"
  shows "is_finished (phases (run_schedule env d ext heic_files schedule st) ! j)"
  using assms
proof (induction schedule arbitrary: st)
  case Nil
  then show ?case by simp
next
  case (Cons i schedule)
  have "steps_left (phases (advance env d ext heic_files i st) ! j) \<le> steps_left (phases st ! j)"
    using advance_steps_left [OF Cons.prems(1)] .
  then have "is_finished (phases (advance env d ext heic_files i st) ! j)"
    using Cons.prems(2) by (simp add: is_finished_steps_left)
  moreover have "j < length (phases (advance env d ext heic_files i st))"
    using Cons.prems(1) by (simp add: advance_length)
  ultimately show ?case using Cons.IH by simp
qed

lemma drain_Suc: "drain (Suc k) = drain k @ [k, k, k]"
  by (simp add: drain_def)

lemma drain_finishes:
  assumes "k \<le> length heic_files" and "length (phases st) = length heic_files"
  shows "\<forall>j<k. is_finished (phases (run_schedule env d ext heic_files (drain k) st) ! j)"
  using assms(1)
proof (induction k)
  case 0
  show ?case by simp
next
  case (Suc k)
  let ?st1 = "run_schedule env d ext heic_files (drain k) st"
  let ?st2 = "run_schedule env d ext heic_files [k, k, k] ?st1"
  have run: "run_schedule env d ext heic_files (drain (Suc k)) st = ?st2"
    by (simp only: drain_Suc run_schedule_append)
  have len1: "length (phases ?st1) = length heic_files"
    using assms(2) by (simp add: run_schedule_length)
  have k: "k < length heic_files" using Suc.prems by simp
  have before: "\<forall>j<k. is_finished (phases ?st1 ! j)" using Suc.IH Suc.prems by simp
  show ?case
  proof (intro allI impI)
    fix j assume "j < Suc k"
    show "is_finished (phases (run_schedule env d ext heic_files (drain (Suc k)) st) ! j)"
    proof (cases "j = k")
      case True
      then show ?thesis
        unfolding run using three_steps_finish [OF k, of ?st1] len1 k by simp
    next
      case False
      then have j: "j < k" using \<open>j < Suc k\<close> by simp
      then have "is_finished (phases ?st1 ! j)" using before by blast
      moreover have "j < length (phases ?st1)" using j k len1 by simp
      ultimately show ?thesis
        unfolding run by (rule run_schedule_keeps_finished [rotated])
    qed
  qed
qed

end
